theory Spec2Isabelle
  imports Complex_Main "HOL-Library.Word"
begin

section \<open>The Phoenix ZPA engine (scripts/phoenix\_zpa\_engine.py)\<close>

text \<open>
  The engine maps a backing file into memory and overlays a packed 64-byte C structure
  on the mapped bytes. The model keeps three layers apart:
  \<^item> the mapped region: a length and a store from byte addresses to bytes;
  \<^item> the structure overlay of the ctypes library (\<open>from_buffer\<close>, the integer field
    setters and getters, the setter and getter of a \<open>c_char\<close> array field), as CPython
    implements it;
  \<^item> the methods of the class \<open>PhoenixZPA\<close>, translated line by line.

  Python integers are \<open>int\<close>, byte strings are lists of 8-bit words, exceptions are
  values of the type \<open>error\<close>. A method that mutates the mapped region returns the
  engine afterwards. The clock read by \<open>write_atom\<close> is a parameter, and so is the
  file found under the name at construction.

  The harmony score is computed in exact rational arithmetic where the program uses
  binary floating point, with \<open>PHI\<close> the decimal literal of the source. The results
  below use the score only through comparisons with the threshold and with 0.99; the
  exact score of a non-empty byte string, \<open>d / n * PHI\<close> with at most 256 distinct
  bytes \<open>d\<close>, stays away from the threshold by more than a millionth of it (a finite
  check over the values of \<open>d\<close>, not part of this theory), far more than
  floating-point rounding can move it. The value stored in the field \<open>h_score\<close> is
  the floor of the exact product, and no result depends on it.

  Not modelled: \<open>close\<close>, the terminal output and the benchmark.
\<close>

type_synonym byte = "8 word"

subsection \<open>Constants\<close>

definition PHI :: rat where
  "PHI = 161803398875 / 100000000000"

definition H_THRESHOLD :: rat where
  "H_THRESHOLD = 1 / PHI"

definition ATOM_SIZE :: int where
  "ATOM_SIZE = 64"

definition MAGIC_SIG :: int where
  "MAGIC_SIG = 496"  \<comment> \<open>0x1F0\<close>

datatype error = IndexError | ValueError | OSError | OverflowError

subsection \<open>The mapped region\<close>

text \<open>
  A file and a memory map are a length in bytes and the bytes by address. Addresses at
  or beyond the length are never read or written by the model: every access goes
  through \<open>from_buffer\<close>, which checks the range first.
\<close>

record file_obj =
  flen :: nat
  fdata :: "nat \<Rightarrow> byte"

record mmap_obj =
  mlen :: int
  mdata :: "nat \<Rightarrow> byte"

text \<open>Copying a byte string to an address (\<open>memcpy\<close>) and reading bytes back.\<close>

fun store :: "(nat \<Rightarrow> byte) \<Rightarrow> nat \<Rightarrow> byte list \<Rightarrow> (nat \<Rightarrow> byte)" where
  "store d a [] = d"
| "store d a (b # bs) = store (d(a := b)) (Suc a) bs"

definition load :: "(nat \<Rightarrow> byte) \<Rightarrow> nat \<Rightarrow> nat \<Rightarrow> byte list" where
  "load d a n = map (\<lambda>k. d (a + k)) [0..<n]"

subsection \<open>The ctypes overlay\<close>

text \<open>
  Integer fields (\<open>c_uint16\<close>, \<open>c_uint64\<close>) are stored in the byte order of the
  platform, taken little-endian here. The setter masks the Python integer to the width of
  the field without any overflow check; the getter returns the unsigned value.
\<close>

definition le_bytes :: "nat \<Rightarrow> int \<Rightarrow> byte list" where
  "le_bytes n v = map (\<lambda>k. word_of_int (v div 256 ^ k)) [0..<n]"

definition le_int :: "byte list \<Rightarrow> int" where
  "le_int bs = foldr (\<lambda>b acc. uint b + 256 * acc) bs 0"

definition set_u16 :: "(nat \<Rightarrow> byte) \<Rightarrow> nat \<Rightarrow> int \<Rightarrow> (nat \<Rightarrow> byte)" where
  "set_u16 d a v = store d a (le_bytes 2 v)"

definition set_u64 :: "(nat \<Rightarrow> byte) \<Rightarrow> nat \<Rightarrow> int \<Rightarrow> (nat \<Rightarrow> byte)" where
  "set_u64 d a v = store d a (le_bytes 8 v)"

definition get_u16 :: "(nat \<Rightarrow> byte) \<Rightarrow> nat \<Rightarrow> int" where
  "get_u16 d a = le_int (load d a 2)"

definition get_u64 :: "(nat \<Rightarrow> byte) \<Rightarrow> nat \<Rightarrow> int" where
  "get_u64 d a = le_int (load d a 8)"

text \<open>
  A \<open>c_char\<close> array field of a structure is a C string. Its setter measures the value
  with \<open>strlen\<close>, so it stops at the first zero byte (a Python byte string is followed by
  a terminating zero), and copies that many bytes, plus the terminating zero when there
  is room for it; bytes of the field after that are left as they were. Its getter returns
  the bytes of the field before the first zero byte.
\<close>

definition strlen :: "byte list \<Rightarrow> nat" where
  "strlen bs = length (takeWhile (\<lambda>b. b \<noteq> 0) bs)"

definition s_set :: "(nat \<Rightarrow> byte) \<Rightarrow> nat \<Rightarrow> byte list \<Rightarrow> nat \<Rightarrow> error + (nat \<Rightarrow> byte)" where
  "s_set d a val len =
     (let data = val @ [0];
          size = strlen data
      in if size < len then Inr (store d a (take (size + 1) data))
         else if size > len then Inl ValueError
         else Inr (store d a (take size data)))"

definition s_get :: "(nat \<Rightarrow> byte) \<Rightarrow> nat \<Rightarrow> nat \<Rightarrow> byte list" where
  "s_get d a len = takeWhile (\<lambda>b. b \<noteq> 0) (load d a len)"

text \<open>
  \<open>FC496Struct\<close>: packed, no padding. Field offsets: magic 0, pi\_index 2, geo\_hash 10,
  schema 18, h\_score 20, flags 22, payload 24 (32 bytes), strands 56; 64 bytes in all.
  A view aliases the mapped bytes; the record holds the values that reading its fields
  yields in the state in which \<open>read_atom\<close> returns it.
\<close>

record FC496Struct =
  magic :: int
  pi_index :: int
  geo_hash :: int
  schema :: int
  h_score :: int
  flags :: int
  payload :: "byte list"
  strands :: int

definition sizeof_FC496Struct :: int where
  "sizeof_FC496Struct = 2 + 8 + 8 + 2 + 2 + 2 + 32 + 8"

text \<open>
  \<open>FC496Struct.from_buffer(map, offset)\<close> raises \<open>ValueError\<close> for a negative offset and
  for a buffer with fewer than 64 bytes from the offset on; otherwise the view starts at
  that address.
\<close>

definition from_buffer :: "mmap_obj \<Rightarrow> int \<Rightarrow> error + nat" where
  "from_buffer m offset =
     (if offset < 0 then Inl ValueError
      else if sizeof_FC496Struct > mlen m - offset then Inl ValueError
      else Inr (nat offset))"

definition read_fields :: "(nat \<Rightarrow> byte) \<Rightarrow> nat \<Rightarrow> FC496Struct" where
  "read_fields d atom =
     \<lparr> magic = get_u16 d atom,
       pi_index = get_u64 d (atom + 2),
       geo_hash = get_u64 d (atom + 10),
       schema = get_u16 d (atom + 18),
       h_score = get_u16 d (atom + 20),
       flags = get_u16 d (atom + 22),
       payload = s_get d (atom + 24) 32,
       strands = get_u64 d (atom + 56) \<rparr>"

subsection \<open>The class PhoenixZPA\<close>

record PhoenixZPA =
  size_bytes :: int
  atom_capacity :: int
  map_mm :: mmap_obj

text \<open>
  \<open>_init_storage\<close>: the file is created and sized (zero-filled) when it does not exist,
  and reused as it is when it does; then \<open>size_bytes\<close> bytes of it are mapped. The
  argument is the file found under the name, if any. \<open>truncate\<close> refuses a negative
  size; \<open>mmap\<close> refuses a negative length, an empty file and a length beyond the end of
  the file, and maps the whole file for length 0. \<open>init\<close> is the constructor
  \<open>__init__\<close>.
\<close>

definition truncate :: "int \<Rightarrow> error + file_obj" where
  "truncate n = (if n < 0 then Inl OSError else Inr \<lparr> flen = nat n, fdata = (\<lambda>_. 0) \<rparr>)"

definition mmap :: "file_obj \<Rightarrow> int \<Rightarrow> error + mmap_obj" where
  "mmap f n =
     (if n < 0 then Inl OverflowError
      else if n = 0 then
        (if flen f = 0 then Inl ValueError else Inr \<lparr> mlen = int (flen f), mdata = fdata f \<rparr>)
      else if n > int (flen f) then Inl ValueError
      else Inr \<lparr> mlen = n, mdata = fdata f \<rparr>)"

definition init_storage :: "file_obj option \<Rightarrow> int \<Rightarrow> error + mmap_obj" where
  "init_storage existing sz =
     (case existing of
        None \<Rightarrow> (case truncate sz of Inl e \<Rightarrow> Inl e | Inr f \<Rightarrow> mmap f sz)
      | Some f \<Rightarrow> mmap f sz)"

definition init :: "file_obj option \<Rightarrow> int \<Rightarrow> error + PhoenixZPA" where
  "init existing size_mb =
     (let sz = size_mb * 1024 * 1024;
          cap = sz div ATOM_SIZE
      in case init_storage existing sz of
           Inl e \<Rightarrow> Inl e
         | Inr m \<Rightarrow> Inr \<lparr> size_bytes = sz, atom_capacity = cap, map_mm = m \<rparr>)"

text \<open>\<open>_calculate_h_score\<close>: distinct bytes over length, times \<open>PHI\<close>, capped at 0.99.\<close>

definition calculate_h_score :: "byte list \<Rightarrow> rat" where
  "calculate_h_score payload_bytes =
     (let entropy = (if payload_bytes \<noteq> []
                     then of_nat (card (set payload_bytes)) / of_nat (length payload_bytes)
                     else 0)
      in min (99 / 100) (entropy * PHI))"

definition ljust :: "byte list \<Rightarrow> nat \<Rightarrow> byte \<Rightarrow> byte list" where
  "ljust bs n fill = bs @ replicate (n - length bs) fill"

text \<open>
  \<open>write_atom\<close>: the result is what the call returns or raises, together with the engine
  afterwards. \<open>now_ms\<close> is the value of \<open>int(time.time() * 1000)\<close> at the call;
  3405691582 is \<open>0xCAFEBABE\<close>, 42 is \<open>0b101010\<close>, 3735928559 is \<open>0xDEADBEEF\<close>.
  The eight field assignments follow one another on the mapped bytes.
\<close>

definition write_atom ::
  "PhoenixZPA \<Rightarrow> int \<Rightarrow> byte list \<Rightarrow> int \<Rightarrow> int \<Rightarrow> (error + bool) \<times> PhoenixZPA" where
  "write_atom self index data_bytes schema_type now_ms =
     (if index \<ge> atom_capacity self then (Inl IndexError, self)
      else
        let h_score_val = calculate_h_score data_bytes
        in if h_score_val < H_THRESHOLD then (Inr False, self)
           else
             let offset = index * ATOM_SIZE
             in case from_buffer (map_mm self) offset of
                  Inl e \<Rightarrow> (Inl e, self)
                | Inr atom \<Rightarrow>
                    let d1 = set_u16 (mdata (map_mm self)) atom MAGIC_SIG;
                        d2 = set_u64 d1 (atom + 2) now_ms;
                        d3 = set_u64 d2 (atom + 10) 3405691582;
                        d4 = set_u16 d3 (atom + 18) schema_type;
                        d5 = set_u16 d4 (atom + 20) \<lfloor>h_score_val * 10000\<rfloor>;
                        d6 = set_u16 d5 (atom + 22) 42;
                        clean_payload = ljust (take 32 data_bytes) 32 0
                    in (case s_set d6 (atom + 24) clean_payload 32 of
                          Inl e \<Rightarrow> (Inl e, self\<lparr>map_mm := (map_mm self)\<lparr>mdata := d6\<rparr>\<rparr>)
                        | Inr d7 \<Rightarrow>
                            let d8 = set_u64 d7 (atom + 56) 3735928559
                            in (Inr True, self\<lparr>map_mm := (map_mm self)\<lparr>mdata := d8\<rparr>\<rparr>)))"

text \<open>\<open>read_atom\<close>: no check of the index other than the one \<open>from_buffer\<close> makes.\<close>

definition read_atom :: "PhoenixZPA \<Rightarrow> int \<Rightarrow> error + FC496Struct option" where
  "read_atom self index =
     (let offset = index * ATOM_SIZE
      in case from_buffer (map_mm self) offset of
           Inl e \<Rightarrow> Inl e
         | Inr atom \<Rightarrow>
             let view = read_fields (mdata (map_mm self)) atom
             in if magic view \<noteq> MAGIC_SIG then Inr None else Inr (Some view))"

subsection \<open>Callers\<close>

text \<open>
  A Python byte-string literal, and a caller that issues one \<open>write_atom\<close> after the
  other (index, payload, schema tag, clock value), going on whatever each call returns
  or raises, as the benchmark loop does with its 100000 writes. \<open>written\<close> tells
  whether some call of such a run on index \<open>i\<close> returned \<open>True\<close>.
\<close>

definition bytes :: "string \<Rightarrow> byte list" where
  "bytes s = map of_char s"

type_synonym call = "int \<times> byte list \<times> int \<times> int"

fun run :: "PhoenixZPA \<Rightarrow> call list \<Rightarrow> PhoenixZPA" where
  "run self [] = self"
| "run self ((index, data_bytes, schema_type, now_ms) # cs) =
     run (snd (write_atom self index data_bytes schema_type now_ms)) cs"

fun written :: "PhoenixZPA \<Rightarrow> call list \<Rightarrow> int \<Rightarrow> bool" where
  "written self [] i = False"
| "written self ((index, data_bytes, schema_type, now_ms) # cs) i =
     ((index = i \<and> fst (write_atom self index data_bytes schema_type now_ms) = Inr True)
      \<or> written (snd (write_atom self index data_bytes schema_type now_ms)) cs i)"

text \<open>The engines a program can hold: constructed, then written to any number of times.\<close>

inductive reachable :: "PhoenixZPA \<Rightarrow> bool" where
  constructed: "init existing size_mb = Inr self \<Longrightarrow> reachable self"
| after_write: "reachable self \<Longrightarrow> reachable (snd (write_atom self index data_bytes schema_type now_ms))"

text \<open>The engine of the scenarios: a new file of one megabyte.\<close>

abbreviation zpa_1mb :: PhoenixZPA where
  "zpa_1mb \<equiv> projr (init None 1)"

section \<open>Auxiliary lemmas\<close>

subsection \<open>Stores and loads\<close>

lemma store_apply:
  "store d a bs x = (if a \<le> x \<and> x < a + length bs then bs ! (x - a) else d x)"
  by (induction bs arbitrary: d a) (auto simp: nth_Cons')

lemma length_load [simp]: "length (load d a n) = n"
  by (simp add: load_def)

lemma nth_load [simp]: "k < n \<Longrightarrow> load d a n ! k = d (a + k)"
  by (simp add: load_def)

lemma load_cong:
  "(\<And>x. a \<le> x \<Longrightarrow> x < a + n \<Longrightarrow> d1 x = d2 x) \<Longrightarrow> load d1 a n = load d2 a n"
  by (simp add: load_def)

lemma load_store_same: "load (store d a bs) a (length bs) = bs"
  by (rule nth_equalityI) (auto simp: store_apply)

lemma load_store_prefix:
  "length bs \<le> n \<Longrightarrow> load (store d a bs) a n = bs @ load d (a + length bs) (n - length bs)"
  by (rule nth_equalityI) (auto simp: store_apply nth_append)

subsection \<open>Integer fields\<close>

lemma length_le_bytes [simp]: "length (le_bytes n v) = n"
  by (simp add: le_bytes_def)

lemma le_int_le_bytes_2: "le_int (le_bytes 2 v) = v mod 65536"
proof -
  have "le_bytes 2 v = [word_of_int v, word_of_int (v div 256)]"
    by (simp add: le_bytes_def numeral_2_eq_2)
  then have "le_int (le_bytes 2 v) = v mod 256 + 256 * (v div 256 mod 256)"
    by (simp add: le_int_def uint_word_of_int)
  also have "\<dots> = v mod 65536"
    using zmod_zmult2_eq [of 256 v 256] by simp
  finally show ?thesis .
qed

lemma get_set_u16: "get_u16 (set_u16 d a v) a = v mod 65536"
  using load_store_same [of d a "le_bytes 2 v"]
  by (simp add: get_u16_def set_u16_def le_int_le_bytes_2)

lemma get_u16_zero: "get_u16 (\<lambda>_. 0) a = 0"
  by (simp add: get_u16_def load_def le_int_def numeral_2_eq_2)

subsection \<open>Character array fields\<close>

lemma strlen_append_zero: "strlen (val @ [0]) = strlen val"
  by (induction val) (auto simp: strlen_def)

lemma strlen_le: "strlen val \<le> length val"
  by (simp add: strlen_def length_takeWhile_le)

lemma strlen_no_zero: "0 \<notin> set bs \<Longrightarrow> strlen bs = length bs"
  by (induction bs) (auto simp: strlen_def)

lemma s_set_exact:
  assumes "length val = len"
  shows "s_set d a val len = Inr (store d a (take (Suc (strlen val)) val))"
proof (cases "strlen val < len")
  case True
  then show ?thesis using assms by (simp add: s_set_def strlen_append_zero)
next
  case False
  with strlen_le [of val] assms have "strlen val = len" by simp
  then show ?thesis using assms by (simp add: s_set_def strlen_append_zero)
qed

lemma takeWhile_take_Suc_append:
  "(strlen val = length val \<Longrightarrow> rest = []) \<Longrightarrow>
   takeWhile (\<lambda>b. b \<noteq> (0::byte)) (take (Suc (strlen val)) val @ rest) =
   takeWhile (\<lambda>b. b \<noteq> 0) val"
  by (induction val) (auto simp: strlen_def)

lemma takeWhile_ljust_zero:
  "takeWhile (\<lambda>b. b \<noteq> (0::byte)) (ljust bs n 0) = takeWhile (\<lambda>b. b \<noteq> 0) bs"
proof -
  have "takeWhile (\<lambda>b. b \<noteq> (0::byte)) (bs @ replicate k 0) = takeWhile (\<lambda>b. b \<noteq> 0) bs" for k
    by (induction bs) auto
  then show ?thesis by (simp add: ljust_def)
qed

lemma s_get_store_cstr:
  assumes "length val = len"
  shows "s_get (store d a (take (Suc (strlen val)) val)) a len = takeWhile (\<lambda>b. b \<noteq> 0) val"
proof -
  let ?w = "take (Suc (strlen val)) val"
  have "length ?w \<le> len" using assms by simp
  then have "load (store d a ?w) a len = ?w @ load d (a + length ?w) (len - length ?w)"
    by (rule load_store_prefix)
  moreover have "strlen val = length val \<Longrightarrow> load d (a + length ?w) (len - length ?w) = []"
    using assms by (simp add: load_def)
  ultimately show ?thesis by (simp add: s_get_def takeWhile_take_Suc_append)
qed

subsection \<open>Scores\<close>

lemma admitted_99: "\<not> (99 / 100 :: rat) < H_THRESHOLD"
  by (simp add: H_THRESHOLD_def PHI_def)

lemma score_distinct:
  assumes "distinct p" "p \<noteq> []"
  shows "calculate_h_score p = 99 / 100"
proof -
  have "card (set p) = length p" using assms(1) by (rule distinct_card)
  moreover have "length p \<noteq> 0" using assms(2) by simp
  ultimately show ?thesis by (simp add: calculate_h_score_def PHI_def)
qed

lemma admitted_distinct:
  assumes "distinct p" "p \<noteq> []"
  shows "\<not> calculate_h_score p < H_THRESHOLD"
  unfolding score_distinct [OF assms] by (rule admitted_99)

lemma score_ab: "calculate_h_score (bytes ''ab'') = 99 / 100"
  unfolding calculate_h_score_def List.card_set by (simp add: bytes_def PHI_def)

lemma admitted_ab: "\<not> calculate_h_score (bytes ''ab'') < H_THRESHOLD"
  unfolding score_ab by (rule admitted_99)

lemma score_zeros:
  "calculate_h_score (replicate n 0) = (if n = 0 then 0 else min (99 / 100) (PHI / of_nat n))"
proof (cases "n = 0")
  case True
  then show ?thesis by (simp add: calculate_h_score_def)
next
  case False
  then have "set (replicate n (0::byte)) = {0}" by auto
  then have "card (set (replicate n (0::byte))) = 1" by simp
  with False show ?thesis by (simp add: calculate_h_score_def)
qed

lemma zeros_rejected:
  "calculate_h_score (replicate n 0) < H_THRESHOLD \<longleftrightarrow> n = 0 \<or> 3 \<le> n"
proof -
  consider "n = 0" | "n = 1" | "n = 2" | "3 \<le> n" by linarith
  then show ?thesis
  proof cases
    case 1
    then show ?thesis unfolding score_zeros by (simp add: H_THRESHOLD_def PHI_def)
  next
    case 2
    then show ?thesis unfolding score_zeros by (simp add: H_THRESHOLD_def PHI_def)
  next
    case 3
    then show ?thesis unfolding score_zeros by (simp add: H_THRESHOLD_def PHI_def)
  next
    case 4
    then have "(3::rat) \<le> of_nat n" by (metis of_nat_le_iff of_nat_numeral)
    then have "PHI / of_nat n \<le> PHI / 3"
      by (intro divide_left_mono) (simp_all add: PHI_def)
    moreover have "PHI / 3 < H_THRESHOLD" by (simp add: H_THRESHOLD_def PHI_def)
    ultimately have "PHI / of_nat n < H_THRESHOLD" by (rule le_less_trans)
    then have "min (99 / 100) (PHI / of_nat n) < H_THRESHOLD"
      by (rule min.strict_coboundedI2)
    with 4 show ?thesis unfolding score_zeros by simp
  qed
qed

lemma score_lichen:
  "calculate_h_score (bytes ''Lichen Universe Semantic Payload V3'') = 99 / 100"
proof -
  have "card (set (bytes ''Lichen Universe Semantic Payload V3'')) = 22"
    unfolding List.card_set by (simp add: bytes_def)
  then show ?thesis
    unfolding calculate_h_score_def by (simp add: bytes_def PHI_def)
qed

subsection \<open>write\_atom\<close>

lemma write_atom_unchanged:
  assumes "atom_capacity self \<le> index \<or> calculate_h_score p < H_THRESHOLD
             \<or> index < 0 \<or> mlen (map_mm self) < index * ATOM_SIZE + 64"
  shows "snd (write_atom self index p s t) = self"
    and "fst (write_atom self index p s t) \<noteq> Inr True"
  using assms
  by (auto simp: write_atom_def from_buffer_def sizeof_FC496Struct_def ATOM_SIZE_def Let_def)

lemma write_atom_rejected:
  "calculate_h_score p < H_THRESHOLD \<Longrightarrow> i < atom_capacity self \<Longrightarrow>
   write_atom self i p s t = (Inr False, self)"
  by (simp add: write_atom_def)

lemma write_atom_admitted:
  fixes self :: PhoenixZPA and index :: int and p :: "byte list" and s t :: int
  defines "a \<equiv> nat (index * ATOM_SIZE)"
    and "d \<equiv> mdata (map_mm self)"
    and "clean \<equiv> ljust (take 32 p) 32 0"
  defines "r \<equiv> write_atom self index p s t"
  defines "d' \<equiv> mdata (map_mm (snd r))"
  assumes idx: "0 \<le> index" "index < atom_capacity self"
    and room: "index * ATOM_SIZE + 64 \<le> mlen (map_mm self)"
    and adm: "\<not> calculate_h_score p < H_THRESHOLD"
  shows "fst r = Inr True"
    and "\<And>x. x < a \<or> a + 64 \<le> x \<Longrightarrow> d' x = d x"
    and "get_u16 d' a = MAGIC_SIG"
    and "get_u16 d' (a + 18) = s mod 65536"
    and "s_get d' (a + 24) 32 = takeWhile (\<lambda>b. b \<noteq> 0) (take 32 p)"
    and "\<And>x. a + 24 + Suc (strlen clean) \<le> x \<Longrightarrow> x < a + 56 \<Longrightarrow> d' x = d x"
    and "\<And>k. k < Suc (strlen clean) \<Longrightarrow> k < 32 \<Longrightarrow> d' (a + 24 + k) = clean ! k"
proof -
  define d1 where "d1 = set_u16 d a MAGIC_SIG"
  define d2 where "d2 = set_u64 d1 (a + 2) t"
  define d3 where "d3 = set_u64 d2 (a + 10) 3405691582"
  define d4 where "d4 = set_u16 d3 (a + 18) s"
  define d5 where "d5 = set_u16 d4 (a + 20) \<lfloor>calculate_h_score p * 10000\<rfloor>"
  define d6 where "d6 = set_u16 d5 (a + 22) 42"
  define w where "w = take (Suc (strlen clean)) clean"
  define d7 where "d7 = store d6 (a + 24) w"
  define d8 where "d8 = set_u64 d7 (a + 56) 3735928559"
  have len: "length clean = 32" by (simp add: clean_def ljust_def)
  have lw: "length w \<le> 32" "length w \<le> Suc (strlen clean)"
    using len by (simp_all add: w_def)
  have sset: "s_set d6 (a + 24) clean 32 = Inr d7"
    using s_set_exact [OF len] by (simp add: d7_def w_def)
  have fb: "from_buffer (map_mm self) (index * ATOM_SIZE) = Inr a"
    using idx room by (simp add: from_buffer_def sizeof_FC496Struct_def ATOM_SIZE_def a_def)
  have r: "r = (Inr True, self\<lparr>map_mm := (map_mm self)\<lparr>mdata := d8\<rparr>\<rparr>)"
    unfolding r_def write_atom_def
    using idx adm sset fb
    by (simp add: Let_def d_def clean_def d1_def d2_def d3_def d4_def d5_def d6_def d8_def)
  then have d': "d' = d8" by (simp add: d'_def)
  show "fst r = Inr True" by (simp add: r)
  show "d' x = d x" if "x < a \<or> a + 64 \<le> x" for x
    using that
  proof
    assume "x < a"
    then show ?thesis
      using lw unfolding d' d8_def d7_def d6_def d5_def d4_def d3_def d2_def d1_def
      by (simp add: store_apply set_u16_def set_u64_def)
  next
    assume "a + 64 \<le> x"
    then show ?thesis
      using lw unfolding d' d8_def d7_def d6_def d5_def d4_def d3_def d2_def d1_def
      by (simp add: store_apply set_u16_def set_u64_def)
  qed
  have "d' x = d1 x" if "a \<le> x" "x < a + 2" for x
    using that lw unfolding d' d8_def d7_def d6_def d5_def d4_def d3_def d2_def
    by (simp add: store_apply set_u16_def set_u64_def)
  then have "get_u16 d' a = get_u16 d1 a"
    by (simp add: get_u16_def load_cong [of a 2 d' d1])
  then show "get_u16 d' a = MAGIC_SIG"
    by (simp add: d1_def get_set_u16 MAGIC_SIG_def)
  have "d' x = d4 x" if "a + 18 \<le> x" "x < a + 18 + 2" for x
    using that lw unfolding d' d8_def d7_def d6_def d5_def
    by (simp add: store_apply set_u16_def set_u64_def)
  then have "get_u16 d' (a + 18) = get_u16 d4 (a + 18)"
    by (simp add: get_u16_def load_cong [of "a + 18" 2 d' d4])
  then show "get_u16 d' (a + 18) = s mod 65536"
    by (simp add: d4_def get_set_u16)
  have field: "d' x = d7 x" if "a + 24 \<le> x" "x < a + 24 + 32" for x
    using that unfolding d' d8_def by (simp add: store_apply set_u64_def)
  show "d' (a + 24 + k) = clean ! k" if "k < Suc (strlen clean)" "k < 32" for k
  proof -
    have "k < length w" using that len by (simp add: w_def)
    then have "d7 (a + 24 + k) = w ! k" by (simp add: d7_def store_apply)
    also have "\<dots> = clean ! k" using that by (simp add: w_def)
    finally show ?thesis using field [of "a + 24 + k"] that by simp
  qed
  from field have "s_get d' (a + 24) 32 = s_get d7 (a + 24) 32"
    by (simp add: s_get_def load_cong [of "a + 24" 32 d' d7])
  also have "\<dots> = takeWhile (\<lambda>b. b \<noteq> 0) clean"
    unfolding d7_def w_def by (rule s_get_store_cstr [OF len])
  finally show "s_get d' (a + 24) 32 = takeWhile (\<lambda>b. b \<noteq> 0) (take 32 p)"
    by (simp add: clean_def takeWhile_ljust_zero)
  show "d' x = d x" if "a + 24 + Suc (strlen clean) \<le> x" "x < a + 56" for x
    using that lw unfolding d' d8_def d7_def d6_def d5_def d4_def d3_def d2_def d1_def
    by (simp add: store_apply set_u16_def set_u64_def)
qed

lemma write_atom_keeps:
  "size_bytes (snd (write_atom self index p s t)) = size_bytes self"
  "atom_capacity (snd (write_atom self index p s t)) = atom_capacity self"
  "mlen (map_mm (snd (write_atom self index p s t))) = mlen (map_mm self)"
  by (simp_all add: write_atom_def Let_def split: sum.splits)

lemma write_atom_not_True:
  assumes "fst (write_atom self index p s t) \<noteq> Inr True"
  shows "snd (write_atom self index p s t) = self"
proof (cases "atom_capacity self \<le> index \<or> calculate_h_score p < H_THRESHOLD
             \<or> index < 0 \<or> mlen (map_mm self) < index * ATOM_SIZE + 64")
  case True
  then show ?thesis by (rule write_atom_unchanged(1))
next
  case False
  then have "fst (write_atom self index p s t) = Inr True"
    by (intro write_atom_admitted(1)) simp_all
  with assms show ?thesis by simp
qed

lemma write_atom_frame:
  assumes "x < nat (index * ATOM_SIZE) \<or> nat (index * ATOM_SIZE) + 64 \<le> x"
  shows "mdata (map_mm (snd (write_atom self index p s t))) x = mdata (map_mm self) x"
proof (cases "atom_capacity self \<le> index \<or> calculate_h_score p < H_THRESHOLD
             \<or> index < 0 \<or> mlen (map_mm self) < index * ATOM_SIZE + 64")
  case True
  then show ?thesis by (simp add: write_atom_unchanged(1))
next
  case False
  then show ?thesis
    using assms by (intro write_atom_admitted(2)) simp_all
qed

lemma other_slot:
  assumes "0 \<le> i" "0 \<le> j" "i \<noteq> j"
    and "nat (j * ATOM_SIZE) \<le> x" "x < nat (j * ATOM_SIZE) + 64"
  shows "x < nat (i * ATOM_SIZE) \<or> nat (i * ATOM_SIZE) + 64 \<le> x"
proof (cases "i < j")
  case True
  then have "i * 64 + 64 \<le> j * 64" by simp
  then have "nat (i * 64) + 64 \<le> nat (j * 64)" using assms(1) by linarith
  then show ?thesis using assms(4) by (simp add: ATOM_SIZE_def)
next
  case False
  with assms(3) have "j * 64 + 64 \<le> i * 64" by simp
  then have "nat (j * 64) + 64 \<le> nat (i * 64)" using assms(2) by linarith
  then show ?thesis using assms(5) by (simp add: ATOM_SIZE_def)
qed

subsection \<open>Construction, runs and reachable engines\<close>

lemma init_Inr:
  assumes "init existing size_mb = Inr self"
  shows "size_bytes self = size_mb * 1024 * 1024"
    and "atom_capacity self = size_bytes self div ATOM_SIZE"
    and "0 < size_mb \<Longrightarrow> mlen (map_mm self) = size_bytes self"
    and "size_bytes self \<le> mlen (map_mm self)"
  using assms
  by (auto simp: init_def init_storage_def truncate_def mmap_def Let_def
      split: sum.splits option.splits if_splits)

lemma init_None_zero: "init None size_mb = Inr self \<Longrightarrow> mdata (map_mm self) = (\<lambda>_. 0)"
  by (auto simp: init_def init_storage_def truncate_def mmap_def Let_def
      split: sum.splits if_splits)

lemma init_fresh:
  "0 < size_mb \<Longrightarrow>
   init None size_mb = Inr \<lparr> size_bytes = size_mb * 1024 * 1024,
     atom_capacity = size_mb * 1024 * 1024 div 64,
     map_mm = \<lparr> mlen = size_mb * 1024 * 1024, mdata = (\<lambda>_. 0) \<rparr> \<rparr>"
  by (simp add: init_def init_storage_def truncate_def mmap_def ATOM_SIZE_def Let_def)

lemma reachable_inv:
  "reachable self \<Longrightarrow> atom_capacity self * ATOM_SIZE \<le> mlen (map_mm self)"
proof (induction rule: reachable.induct)
  case (constructed existing size_mb self)
  from init_Inr(1,2,4) [OF this] show ?case by (simp add: ATOM_SIZE_def)
next
  case (after_write self index data_bytes schema_type now_ms)
  then show ?case by (simp add: write_atom_keeps)
qed

lemma slot_in_map:
  assumes "reachable self" "index < atom_capacity self"
  shows "index * ATOM_SIZE + 64 \<le> mlen (map_mm self)"
proof -
  have "(index + 1) * 64 \<le> atom_capacity self * 64" using assms(2) by simp
  then show ?thesis using reachable_inv [OF assms(1)] by (simp add: ATOM_SIZE_def algebra_simps)
qed

lemma reachable_run: "reachable self \<Longrightarrow> reachable (run self cs)"
  by (induction self cs rule: run.induct) (auto intro: reachable.after_write)

lemma run_keeps:
  "size_bytes (run self cs) = size_bytes self"
  "atom_capacity (run self cs) = atom_capacity self"
  "mlen (map_mm (run self cs)) = mlen (map_mm self)"
  by (induction self cs rule: run.induct) (simp_all add: write_atom_keeps)

lemma run_slot_untouched:
  assumes "0 \<le> i"
  shows "\<not> written self cs i \<Longrightarrow> nat (i * ATOM_SIZE) \<le> x \<Longrightarrow> x < nat (i * ATOM_SIZE) + 64 \<Longrightarrow>
         mdata (map_mm (run self cs)) x = mdata (map_mm self) x"
proof (induction self cs rule: run.induct)
  case (1 self)
  show ?case by simp
next
  case (2 self index data_bytes schema_type now_ms cs)
  let ?r = "write_atom self index data_bytes schema_type now_ms"
  from "2.prems"(1) have nw: "\<not> (index = i \<and> fst ?r = Inr True)"
    and rest: "\<not> written (snd ?r) cs i" by simp_all
  have "mdata (map_mm (run (snd ?r) cs)) x = mdata (map_mm (snd ?r)) x"
    using rest "2.prems"(2,3) by (rule "2.IH")
  also have "\<dots> = mdata (map_mm self) x"
  proof (cases "fst ?r = Inr True")
    case False
    then show ?thesis by (simp add: write_atom_not_True)
  next
    case True
    with nw have ne: "index \<noteq> i" by simp
    from True have "0 \<le> index"
      using write_atom_unchanged(2) [of self index data_bytes schema_type now_ms]
      by (cases "index < 0") auto
    from other_slot [OF this assms ne "2.prems"(2,3)] show ?thesis
      by (rule write_atom_frame)
  qed
  finally show ?case by simp
qed

subsection \<open>Reading after writing\<close>

lemma read_atom_in_range:
  assumes "0 \<le> i" "i * ATOM_SIZE + 64 \<le> mlen (map_mm self)"
  shows "read_atom self i =
    (if get_u16 (mdata (map_mm self)) (nat (i * ATOM_SIZE)) \<noteq> MAGIC_SIG then Inr None
     else Inr (Some (read_fields (mdata (map_mm self)) (nat (i * ATOM_SIZE)))))"
  using assms
  by (simp add: read_atom_def from_buffer_def sizeof_FC496Struct_def ATOM_SIZE_def Let_def
      read_fields_def)

lemma read_atom_after_write:
  fixes self :: PhoenixZPA and i :: int and p :: "byte list" and s t :: int
  defines "self' \<equiv> snd (write_atom self i p s t)"
  defines "v \<equiv> read_fields (mdata (map_mm self')) (nat (i * ATOM_SIZE))"
  assumes "reachable self" "0 \<le> i" "i < atom_capacity self"
    and "\<not> calculate_h_score p < H_THRESHOLD"
  shows "fst (write_atom self i p s t) = Inr True"
    and "read_atom self' i = Inr (Some v)"
    and "magic v = MAGIC_SIG"
    and "schema v = s mod 65536"
    and "payload v = takeWhile (\<lambda>b. b \<noteq> 0) (take 32 p)"
proof -
  have room: "i * ATOM_SIZE + 64 \<le> mlen (map_mm self)"
    using assms(3,5) by (rule slot_in_map)
  note w = write_atom_admitted [OF assms(4,5) room assms(6), where s = s and t = t]
  show "fst (write_atom self i p s t) = Inr True" by (rule w(1))
  show m: "magic v = MAGIC_SIG"
    using w(3) by (simp add: v_def self'_def read_fields_def)
  show "schema v = s mod 65536"
    using w(4) by (simp add: v_def self'_def read_fields_def)
  show "payload v = takeWhile (\<lambda>b. b \<noteq> 0) (take 32 p)"
    using w(5) by (simp add: v_def self'_def read_fields_def)
  have "i * ATOM_SIZE + 64 \<le> mlen (map_mm self')"
    using room by (simp add: self'_def write_atom_keeps)
  from read_atom_in_range [OF assms(4) this] m
  show "read_atom self' i = Inr (Some v)"
    by (simp add: v_def read_fields_def)
qed

subsection \<open>The engine of one megabyte\<close>

lemma init_1mb: "init None 1 = Inr zpa_1mb"
  using init_fresh [of 1] by simp

lemma reachable_1mb: "reachable zpa_1mb"
  using init_fresh [of 1] by (auto intro: reachable.constructed)

lemma zpa_1mb_eq:
  "zpa_1mb = \<lparr> size_bytes = 1048576, atom_capacity = 16384,
     map_mm = \<lparr> mlen = 1048576, mdata = (\<lambda>_. 0) \<rparr> \<rparr>"
  using init_fresh [of 1] by simp

lemma read_atom_fresh: "0 \<le> i \<Longrightarrow> i < 16384 \<Longrightarrow> read_atom zpa_1mb i = Inr None"
  by (simp add: read_atom_in_range zpa_1mb_eq ATOM_SIZE_def get_u16_zero MAGIC_SIG_def)

section \<open>Round trip\<close>

text \<open>
  C1, as the code has it. A write at a valid index with an admissible payload returns
  true, and reading the slot then returns a record with the sentinel as magic, the schema
  tag reduced modulo 65536 (the tag itself when it fits 16 bits), and as payload the
  first 32 bytes of the written payload cut before their first zero byte: the payload
  read is never zero-padded, and it is the first 32 bytes themselves when none of them
  is zero.
\<close>

theorem round_trip:
  assumes "reachable self" "0 \<le> i" "i < atom_capacity self"
    and "\<not> calculate_h_score p < H_THRESHOLD"
  shows "fst (write_atom self i p s t) = Inr True
     \<and> (\<exists>v. read_atom (snd (write_atom self i p s t)) i = Inr (Some v)
            \<and> payload v = takeWhile (\<lambda>b. b \<noteq> 0) (take 32 p)
            \<and> (0 \<notin> set (take 32 p) \<longrightarrow> payload v = take 32 p)
            \<and> schema v = s mod 65536
            \<and> (0 \<le> s \<and> s < 65536 \<longrightarrow> schema v = s)
            \<and> magic v = MAGIC_SIG)"
proof -
  note r = read_atom_after_write [OF assms, of s t]
  have "0 \<notin> set (take 32 p) \<Longrightarrow> takeWhile (\<lambda>b. b \<noteq> 0) (take 32 p) = take 32 p"
    by (rule takeWhile_eq_all_conv [THEN iffD2]) auto
  with r show ?thesis by auto
qed

theorem round_trip_witness:
  "fst (write_atom zpa_1mb 3 (bytes ''Phoenix'') 7 1700000000000) = Inr True
   \<and> map_sum id (map_option payload)
        (read_atom (snd (write_atom zpa_1mb 3 (bytes ''Phoenix'') 7 1700000000000)) 3)
      = Inr (Some (bytes ''Phoenix''))
   \<and> map_sum id (map_option schema)
        (read_atom (snd (write_atom zpa_1mb 3 (bytes ''Phoenix'') 7 1700000000000)) 3)
      = Inr (Some 7)
   \<and> map_sum id (map_option magic)
        (read_atom (snd (write_atom zpa_1mb 3 (bytes ''Phoenix'') 7 1700000000000)) 3)
      = Inr (Some 496)"
proof -
  have cap: "(3::int) < atom_capacity zpa_1mb" by (simp add: zpa_1mb_eq)
  have adm: "\<not> calculate_h_score (bytes ''Phoenix'') < H_THRESHOLD"
    by (rule admitted_distinct) (simp_all add: bytes_def)
  have nz: "0 \<notin> set (take 32 (bytes ''Phoenix''))" by (simp add: bytes_def)
  have tk: "take 32 (bytes ''Phoenix'') = bytes ''Phoenix''" by (simp add: bytes_def)
  have "(0::int) \<le> 3" by simp
  from round_trip [OF reachable_1mb this cap adm, of 7 1700000000000] nz tk
  show ?thesis by (auto simp: MAGIC_SIG_def)
qed

text \<open>
  The claim as stated fails: the two-byte payload \<open>ab\<close> is admitted, and reads back as
  these two bytes, not as the 32 bytes of the zero-padded payload; the schema tag 65537
  reads back as 1.
\<close>

theorem round_trip_counterexample:
  "\<not> calculate_h_score (bytes ''ab'') < H_THRESHOLD
   \<and> fst (write_atom zpa_1mb 0 (bytes ''ab'') 65537 0) = Inr True
   \<and> map_sum id (map_option payload)
        (read_atom (snd (write_atom zpa_1mb 0 (bytes ''ab'') 65537 0)) 0)
      = Inr (Some (bytes ''ab''))
   \<and> bytes ''ab'' \<noteq> ljust (take 32 (bytes ''ab'')) 32 0
   \<and> map_sum id (map_option schema)
        (read_atom (snd (write_atom zpa_1mb 0 (bytes ''ab'') 65537 0)) 0)
      = Inr (Some 1)"
proof -
  have cap: "(0::int) < atom_capacity zpa_1mb" by (simp add: zpa_1mb_eq)
  have "(0::int) \<le> 0" by simp
  note r = read_atom_after_write [OF reachable_1mb this cap admitted_ab, of 65537 0]
  have "takeWhile (\<lambda>b. b \<noteq> 0) (take 32 (bytes ''ab'')) = bytes ''ab''"
    by (simp add: bytes_def)
  moreover have "length (bytes ''ab'') \<noteq> length (ljust (take 32 (bytes ''ab'')) 32 0)"
    by (simp add: bytes_def ljust_def)
  then have "bytes ''ab'' \<noteq> ljust (take 32 (bytes ''ab'')) 32 0" by metis
  ultimately show ?thesis using r admitted_ab by simp
qed

section \<open>Rejection\<close>

text \<open>
  C2, as the code has it. The score of a payload is 0 when it is empty, and otherwise
  the least of 0.99 and its number of distinct bytes over its length times \<open>PHI\<close>. A
  write of a payload scoring below the threshold at a valid index, from 0 to the
  capacity less one, returns false and leaves the engine as it was, the magic field of
  the slot included. A payload
  of \<open>n\<close> zero bytes scores 0 only for \<open>n = 0\<close> and \<open>min 0.99 (PHI / n)\<close> otherwise;
  it is rejected exactly when \<open>n = 0\<close> or \<open>n \<ge> 3\<close>.
\<close>

theorem rejection:
  "calculate_h_score p =
     (if p = [] then 0
      else min (99 / 100) (of_nat (card (set p)) / of_nat (length p) * PHI))
   \<and> (calculate_h_score p < H_THRESHOLD \<and> 0 \<le> i \<and> i < atom_capacity self \<longrightarrow>
        write_atom self i p s t = (Inr False, self)
        \<and> get_u16 (mdata (map_mm (snd (write_atom self i p s t)))) (nat (i * 64))
          = get_u16 (mdata (map_mm self)) (nat (i * 64))
        \<and> read_atom (snd (write_atom self i p s t)) i = read_atom self i)
   \<and> calculate_h_score (replicate n 0) = (if n = 0 then 0 else min (99 / 100) (PHI / of_nat n))
   \<and> (calculate_h_score (replicate n 0) < H_THRESHOLD \<longleftrightarrow> n = 0 \<or> 3 \<le> n)"
proof -
  have formula: "calculate_h_score p =
     (if p = [] then 0
      else min (99 / 100) (of_nat (card (set p)) / of_nat (length p) * PHI))"
    by (simp add: calculate_h_score_def)
  have rej: "write_atom self i p s t = (Inr False, self)"
    if "calculate_h_score p < H_THRESHOLD \<and> 0 \<le> i \<and> i < atom_capacity self"
    using that by (simp add: write_atom_def)
  from formula rej score_zeros [of n] zeros_rejected [of n] show ?thesis by simp
qed

theorem rejection_witness:
  "calculate_h_score (replicate 3 0) < H_THRESHOLD
   \<and> write_atom zpa_1mb 0 (replicate 3 0) 1 0 = (Inr False, zpa_1mb)
   \<and> read_atom (snd (write_atom zpa_1mb 0 (replicate 3 0) 1 0)) 0 = Inr None"
proof -
  have cap: "(0::int) < atom_capacity zpa_1mb" by (simp add: zpa_1mb_eq)
  have rj: "calculate_h_score (replicate 3 0) < H_THRESHOLD"
    using zeros_rejected [of 3] by simp
  from rejection [of "replicate 3 0" 0 zpa_1mb 1 0 3] cap rj read_atom_fresh [of 0]
  show ?thesis by simp
qed

text \<open>
  The claim as stated fails: a single zero byte scores 0.99, not 0; it is admitted, the
  write returns true and the magic field of the slot, absent before, is the sentinel
  afterwards.
\<close>

theorem rejection_counterexample:
  "calculate_h_score [0] = 99 / 100
   \<and> \<not> calculate_h_score [0] < H_THRESHOLD
   \<and> read_atom zpa_1mb 0 = Inr None
   \<and> fst (write_atom zpa_1mb 0 [0] 1 0) = Inr True
   \<and> map_sum id (map_option magic) (read_atom (snd (write_atom zpa_1mb 0 [0] 1 0)) 0)
     = Inr (Some 496)"
proof -
  have sc: "calculate_h_score [0] = 99 / 100"
    by (rule score_distinct) simp_all
  have adm: "\<not> calculate_h_score [0] < H_THRESHOLD"
    by (rule admitted_distinct) simp_all
  have cap: "(0::int) < atom_capacity zpa_1mb" by (simp add: zpa_1mb_eq)
  have "(0::int) \<le> 0" by simp
  note r = read_atom_after_write [OF reachable_1mb this cap adm, of 1 0]
  from sc adm r read_atom_fresh [of 0] show ?thesis by (simp add: MAGIC_SIG_def)
qed

section \<open>Indices out of range\<close>

text \<open>
  C3, evaluated on the engine of one megabyte (capacity 16384). \<open>write_atom\<close> checks
  only \<open>index >= capacity\<close>, and \<open>read_atom\<close> checks nothing: a write at index -1
  of a payload below the threshold returns false without any error, a write at index -1
  of an admissible payload and every read out of range raise the \<open>ValueError\<close> of
  \<open>from_buffer\<close>, not \<open>IndexError\<close>. A write at the capacity raises \<open>IndexError\<close>
  and a write at the last index succeeds.
\<close>

theorem bounds_evaluated:
  "write_atom zpa_1mb (- 1) (replicate 3 0) 1 t = (Inr False, zpa_1mb)
   \<and> fst (write_atom zpa_1mb (- 1) (bytes ''ab'') 1 t) = Inl ValueError
   \<and> read_atom zpa_1mb (- 1) = Inl ValueError
   \<and> read_atom zpa_1mb 16384 = Inl ValueError
   \<and> fst (write_atom zpa_1mb 16384 (bytes ''ab'') 1 t) = Inl IndexError
   \<and> fst (write_atom zpa_1mb 16383 (bytes ''ab'') 1 t) = Inr True"
proof -
  have rj: "calculate_h_score (replicate 3 0) < H_THRESHOLD"
    using zeros_rejected [of 3] by simp
  have c1: "write_atom zpa_1mb (- 1) (replicate 3 0) 1 t = (Inr False, zpa_1mb)"
    using rj by (intro write_atom_rejected) (simp_all add: zpa_1mb_eq)
  have c2: "fst (write_atom zpa_1mb (- 1) (bytes ''ab'') 1 t) = Inl ValueError"
    using admitted_ab
    by (simp add: write_atom_def from_buffer_def zpa_1mb_eq ATOM_SIZE_def)
  have c3: "read_atom zpa_1mb (- 1) = Inl ValueError"
    by (simp add: read_atom_def from_buffer_def ATOM_SIZE_def)
  have c4: "read_atom zpa_1mb 16384 = Inl ValueError"
    by (simp add: read_atom_def from_buffer_def ATOM_SIZE_def zpa_1mb_eq sizeof_FC496Struct_def)
  have c5: "fst (write_atom zpa_1mb 16384 (bytes ''ab'') 1 t) = Inl IndexError"
    by (simp add: write_atom_def zpa_1mb_eq)
  have "(16383::int) < atom_capacity zpa_1mb" by (simp add: zpa_1mb_eq)
  then have c6: "fst (write_atom zpa_1mb 16383 (bytes ''ab'') 1 t) = Inr True"
    using admitted_ab by (intro read_atom_after_write(1) reachable_1mb) simp_all
  from c1 c2 c3 c4 c5 c6 show ?thesis by blast
qed

section \<open>The scenario of one megabyte\<close>

text \<open>
  C4. An engine constructed with \<open>size_mb = 1\<close> over a new file has capacity 16384 and
  a zero-filled region. Writing the 35 bytes of
  \<open>Lichen Universe Semantic Payload V3\<close> at index 0 with schema 1 returns true, at any
  clock value: 22 distinct bytes over 35, times \<open>PHI\<close>, is capped at 0.99, above the
  threshold. Reading index 0 then returns a record whose payload is the first 32 bytes of
  the string, and reading index 1 returns absent.
\<close>

theorem scenario_1mb:
  "init None 1 = Inr zpa_1mb
   \<and> atom_capacity zpa_1mb = 16384
   \<and> mdata (map_mm zpa_1mb) = (\<lambda>_. 0)
   \<and> calculate_h_score (bytes ''Lichen Universe Semantic Payload V3'') = 99 / 100
   \<and> H_THRESHOLD < 99 / 100
   \<and> fst (write_atom zpa_1mb 0 (bytes ''Lichen Universe Semantic Payload V3'') 1 t) = Inr True
   \<and> map_sum id (map_option payload)
        (read_atom (snd (write_atom zpa_1mb 0 (bytes ''Lichen Universe Semantic Payload V3'') 1 t)) 0)
      = Inr (Some (bytes ''Lichen Universe Semantic Payload''))
   \<and> bytes ''Lichen Universe Semantic Payload''
      = take 32 (bytes ''Lichen Universe Semantic Payload V3'')
   \<and> length (bytes ''Lichen Universe Semantic Payload'') = 32
   \<and> read_atom (snd (write_atom zpa_1mb 0 (bytes ''Lichen Universe Semantic Payload V3'') 1 t)) 1
      = Inr None"
proof -
  let ?p = "bytes ''Lichen Universe Semantic Payload V3''"
  let ?z = "snd (write_atom zpa_1mb 0 ?p 1 t)"
  have cap: "(0::int) < atom_capacity zpa_1mb" by (simp add: zpa_1mb_eq)
  have adm: "\<not> calculate_h_score ?p < H_THRESHOLD"
    unfolding score_lichen by (rule admitted_99)
  have "(0::int) \<le> 0" by simp
  note r = read_atom_after_write [OF reachable_1mb this cap adm, of 1 t]
  have tw: "takeWhile (\<lambda>b. b \<noteq> 0) (take 32 ?p) = bytes ''Lichen Universe Semantic Payload''"
    by (simp add: bytes_def)
  have rd0: "map_sum id (map_option payload) (read_atom ?z 0)
      = Inr (Some (bytes ''Lichen Universe Semantic Payload''))"
    using r(2,5) tw by simp
  have "mdata (map_mm ?z) x = (\<lambda>_. 0) x" if "64 \<le> x" for x
    using write_atom_frame [of x 0 zpa_1mb ?p 1 t] that
    by (simp add: ATOM_SIZE_def zpa_1mb_eq)
  then have "load (mdata (map_mm ?z)) 64 2 = load (\<lambda>_. 0) 64 2"
    by (intro load_cong) simp
  then have g: "get_u16 (mdata (map_mm ?z)) 64 = 0"
    using get_u16_zero [of 64] by (simp add: get_u16_def)
  have "(1::int) * ATOM_SIZE + 64 \<le> mlen (map_mm ?z)"
    by (simp add: write_atom_keeps zpa_1mb_eq ATOM_SIZE_def)
  from read_atom_in_range [OF _ this] g
  have rd1: "read_atom ?z 1 = Inr None" by (simp add: ATOM_SIZE_def MAGIC_SIG_def)
  have c1: "atom_capacity zpa_1mb = 16384" "mdata (map_mm zpa_1mb) = (\<lambda>_. 0)"
    by (simp_all add: zpa_1mb_eq)
  have c2: "H_THRESHOLD < 99 / 100" by (simp add: H_THRESHOLD_def PHI_def)
  have c3: "bytes ''Lichen Universe Semantic Payload''
      = take 32 (bytes ''Lichen Universe Semantic Payload V3'')"
    "length (bytes ''Lichen Universe Semantic Payload'') = 32"
    by (simp_all add: bytes_def)
  from init_1mb c1 score_lichen c2 r(1) rd0 c3 rd1 show ?thesis by blast
qed

section \<open>Absence\<close>

text \<open>
  C5. On an engine constructed over a new, zero-filled file, reading a valid index whose
  slot no write of the run so far has written successfully returns absent: neither an
  error nor a record.
\<close>

theorem absence:
  assumes "init None size_mb = Inr self" "0 \<le> i" "i < atom_capacity self"
    and "\<not> written self cs i"
  shows "read_atom (run self cs) i = Inr None"
proof -
  let ?a = "nat (i * ATOM_SIZE)"
  have re: "reachable (run self cs)"
    using assms(1) by (intro reachable_run reachable.constructed)
  have "i < atom_capacity (run self cs)" using assms(3) by (simp add: run_keeps)
  with re have room: "i * ATOM_SIZE + 64 \<le> mlen (map_mm (run self cs))"
    by (rule slot_in_map)
  have "mdata (map_mm (run self cs)) x = (\<lambda>_. 0) x" if "?a \<le> x" "x < ?a + 2" for x
    using run_slot_untouched [OF assms(2,4), of x] that init_None_zero [OF assms(1)] by simp
  then have "load (mdata (map_mm (run self cs))) ?a 2 = load (\<lambda>_. 0) ?a 2"
    by (rule load_cong)
  then have "get_u16 (mdata (map_mm (run self cs))) ?a = 0"
    using get_u16_zero [of ?a] by (simp add: get_u16_def)
  then show ?thesis
    by (simp add: read_atom_in_range [OF assms(2) room] MAGIC_SIG_def)
qed

theorem absence_witness:
  "read_atom (run zpa_1mb [(0, bytes ''ab'', 1, 0), (1, replicate 3 0, 1, 0)]) 1 = Inr None"
proof -
  have cap: "(1::int) < atom_capacity zpa_1mb" by (simp add: zpa_1mb_eq)
  have rj: "calculate_h_score (replicate 3 0) < H_THRESHOLD"
    using zeros_rejected [of 3] by simp
  have "1 < atom_capacity (snd (write_atom zpa_1mb 0 (bytes ''ab'') 1 0))"
    using cap by (simp only: write_atom_keeps)
  with rj have "fst (write_atom (snd (write_atom zpa_1mb 0 (bytes ''ab'') 1 0)) 1 (replicate 3 0) 1 0)
      = Inr False"
    by (simp only: write_atom_rejected fst_conv)
  then have nw: "\<not> written zpa_1mb [(0, bytes ''ab'', 1, 0), (1, replicate 3 0, 1, 0)] 1"
    by simp
  have "(0::int) \<le> 1" by simp
  from absence [OF init_1mb this cap nw] show ?thesis .
qed

section \<open>Overwriting\<close>

text \<open>
  C6, as the code has it. Two writes at the same valid index with admissible payloads
  \<open>p1\<close> then \<open>p2\<close> both return true, and then only the second is readable: the
  record read has the sentinel, the second schema tag modulo 65536, and as payload the
  first 32 bytes of \<open>p2\<close> cut before their first zero byte. The payload field holds the
  zero-padded first 32 bytes of \<open>p2\<close> up to and including their first zero byte; when
  \<open>p2\<close> has 32 bytes or more and none of its first 32 is zero, these are the whole
  field, and no byte of \<open>p1\<close> is left in it.
\<close>

theorem overwrite:
  assumes "reachable self" "0 \<le> i" "i < atom_capacity self"
    and "\<not> calculate_h_score p1 < H_THRESHOLD" "\<not> calculate_h_score p2 < H_THRESHOLD"
  shows "(let self1 = snd (write_atom self i p1 s1 t1);
              self2 = snd (write_atom self1 i p2 s2 t2);
              clean = ljust (take 32 p2) 32 0
          in fst (write_atom self i p1 s1 t1) = Inr True
           \<and> fst (write_atom self1 i p2 s2 t2) = Inr True
           \<and> (\<exists>v. read_atom self2 i = Inr (Some v)
                  \<and> payload v = takeWhile (\<lambda>b. b \<noteq> 0) (take 32 p2)
                  \<and> schema v = s2 mod 65536
                  \<and> magic v = MAGIC_SIG)
           \<and> (\<forall>k. k \<le> strlen clean \<and> k < 32 \<longrightarrow>
                  mdata (map_mm self2) (nat (i * 64) + 24 + k) = clean ! k)
           \<and> (32 \<le> length p2 \<and> 0 \<notin> set (take 32 p2) \<longrightarrow>
                  load (mdata (map_mm self2)) (nat (i * 64) + 24) 32 = take 32 p2))"
proof -
  define self1 where "self1 = snd (write_atom self i p1 s1 t1)"
  define self2 where "self2 = snd (write_atom self1 i p2 s2 t2)"
  define clean where "clean = ljust (take 32 p2) 32 0"
  have re1: "reachable self1"
    unfolding self1_def using assms(1) by (rule reachable.after_write)
  have cap1: "i < atom_capacity self1"
    using assms(3) by (simp add: self1_def write_atom_keeps)
  have w1: "fst (write_atom self i p1 s1 t1) = Inr True"
    using assms(1,2,3,4) by (rule read_atom_after_write(1))
  note r2 = read_atom_after_write [OF re1 assms(2) cap1 assms(5), of s2 t2]
  have room: "i * ATOM_SIZE + 64 \<le> mlen (map_mm self1)"
    using re1 cap1 by (rule slot_in_map)
  have pre: "mdata (map_mm self2) (nat (i * 64) + 24 + k) = clean ! k"
    if "k \<le> strlen clean \<and> k < 32" for k
    using write_atom_admitted(7) [OF assms(2) cap1 room assms(5), of k s2 t2] that
    by (simp add: self2_def clean_def ATOM_SIZE_def)
  have full: "load (mdata (map_mm self2)) (nat (i * 64) + 24) 32 = take 32 p2"
    if h: "32 \<le> length p2 \<and> 0 \<notin> set (take 32 p2)"
  proof (rule nth_equalityI)
    show "length (load (mdata (map_mm self2)) (nat (i * 64) + 24) 32) = length (take 32 p2)"
      using h by simp
  next
    fix k assume "k < length (load (mdata (map_mm self2)) (nat (i * 64) + 24) 32)"
    then have k: "k < 32" by simp
    have cl: "clean = take 32 p2" using h by (simp add: clean_def ljust_def)
    then have "strlen clean = 32" using h strlen_no_zero [of "take 32 p2"] by simp
    with pre [of k] k cl
    show "load (mdata (map_mm self2)) (nat (i * 64) + 24) 32 ! k = take 32 p2 ! k"
      by simp
  qed
  from w1 r2 pre full show ?thesis
    unfolding Let_def self1_def [symmetric] self2_def [symmetric] clean_def [symmetric]
    by blast
qed

theorem overwrite_witness:
  "fst (write_atom (snd (write_atom zpa_1mb 7 (bytes ''first'') 1 10)) 7
          (bytes ''0123456789abcdefghijklmnopqrstuvwxyz'') 2 20) = Inr True
   \<and> map_sum id (map_option payload)
        (read_atom (snd (write_atom (snd (write_atom zpa_1mb 7 (bytes ''first'') 1 10)) 7
          (bytes ''0123456789abcdefghijklmnopqrstuvwxyz'') 2 20)) 7)
      = Inr (Some (bytes ''0123456789abcdefghijklmnopqrstuv''))
   \<and> load (mdata (map_mm (snd (write_atom (snd (write_atom zpa_1mb 7 (bytes ''first'') 1 10)) 7
          (bytes ''0123456789abcdefghijklmnopqrstuvwxyz'') 2 20)))) 472 32
      = bytes ''0123456789abcdefghijklmnopqrstuv''"
proof -
  let ?p1 = "bytes ''first''" and ?p2 = "bytes ''0123456789abcdefghijklmnopqrstuvwxyz''"
  have cap: "(7::int) < atom_capacity zpa_1mb" by (simp add: zpa_1mb_eq)
  have adm1: "\<not> calculate_h_score ?p1 < H_THRESHOLD"
    by (rule admitted_distinct) (simp_all add: bytes_def)
  have adm2: "\<not> calculate_h_score ?p2 < H_THRESHOLD"
    by (rule admitted_distinct) (simp_all add: bytes_def)
  have tk: "take 32 ?p2 = bytes ''0123456789abcdefghijklmnopqrstuv''" by (simp add: bytes_def)
  have nz: "0 \<notin> set (bytes ''0123456789abcdefghijklmnopqrstuv'')" by (simp add: bytes_def)
  have tw: "takeWhile (\<lambda>b. b \<noteq> 0) (bytes ''0123456789abcdefghijklmnopqrstuv'')
      = bytes ''0123456789abcdefghijklmnopqrstuv''"
    using nz by (intro takeWhile_eq_all_conv [THEN iffD2]) auto
  have ln: "32 \<le> length ?p2" by (simp add: bytes_def)
  have "(0::int) \<le> 7" by simp
  from overwrite [OF reachable_1mb this cap adm1 adm2, of 1 10 2 20] tk nz tw ln
  show ?thesis by (auto simp: Let_def)
qed

text \<open>
  The claim as stated fails. After writing 32 letters and then the two bytes \<open>xy\<close> at
  index 0, the payload read is \<open>xy\<close>, not the 32 bytes of the zero-padded \<open>xy\<close>,
  and the payload field (addresses 24 to 55) still holds bytes of the first payload
  after the two bytes and their terminating zero: its fourth byte is the letter D, its
  last byte the letter f, where the padded \<open>xy\<close> has zero.
\<close>

theorem overwrite_counterexample:
  "\<not> calculate_h_score (bytes ''ABCDEFGHIJKLMNOPQRSTUVWXYZabcdef'') < H_THRESHOLD
   \<and> \<not> calculate_h_score (bytes ''xy'') < H_THRESHOLD
   \<and> fst (write_atom (snd (write_atom zpa_1mb 0 (bytes ''ABCDEFGHIJKLMNOPQRSTUVWXYZabcdef'') 1 0))
            0 (bytes ''xy'') 1 0) = Inr True
   \<and> map_sum id (map_option payload)
        (read_atom (snd (write_atom
            (snd (write_atom zpa_1mb 0 (bytes ''ABCDEFGHIJKLMNOPQRSTUVWXYZabcdef'') 1 0))
            0 (bytes ''xy'') 1 0)) 0)
      = Inr (Some (bytes ''xy''))
   \<and> mdata (map_mm (snd (write_atom
            (snd (write_atom zpa_1mb 0 (bytes ''ABCDEFGHIJKLMNOPQRSTUVWXYZabcdef'') 1 0))
            0 (bytes ''xy'') 1 0))) 27
      = bytes ''ABCDEFGHIJKLMNOPQRSTUVWXYZabcdef'' ! 3
   \<and> mdata (map_mm (snd (write_atom
            (snd (write_atom zpa_1mb 0 (bytes ''ABCDEFGHIJKLMNOPQRSTUVWXYZabcdef'') 1 0))
            0 (bytes ''xy'') 1 0))) 55
      = bytes ''ABCDEFGHIJKLMNOPQRSTUVWXYZabcdef'' ! 31
   \<and> bytes ''ABCDEFGHIJKLMNOPQRSTUVWXYZabcdef'' ! 3 = 68
   \<and> bytes ''ABCDEFGHIJKLMNOPQRSTUVWXYZabcdef'' ! 31 = 102
   \<and> ljust (take 32 (bytes ''xy'')) 32 0 ! 3 = 0
   \<and> ljust (take 32 (bytes ''xy'')) 32 0 ! 31 = 0"
proof -
  let ?p1 = "bytes ''ABCDEFGHIJKLMNOPQRSTUVWXYZabcdef''" and ?p2 = "bytes ''xy''"
  let ?z1 = "snd (write_atom zpa_1mb 0 ?p1 1 0)"
  let ?z2 = "snd (write_atom ?z1 0 ?p2 1 0)"
  have cap: "(0::int) < atom_capacity zpa_1mb" by (simp add: zpa_1mb_eq)
  have adm1: "\<not> calculate_h_score ?p1 < H_THRESHOLD"
    by (rule admitted_distinct) (simp_all add: bytes_def)
  have adm2: "\<not> calculate_h_score ?p2 < H_THRESHOLD"
    by (rule admitted_distinct) (simp_all add: bytes_def)
  have z: "(0::int) \<le> 0" by simp
  have re1: "reachable ?z1" using reachable_1mb by (rule reachable.after_write)
  have cap1: "(0::int) < atom_capacity ?z1" using cap by (simp only: write_atom_keeps)
  have room0: "(0::int) * ATOM_SIZE + 64 \<le> mlen (map_mm zpa_1mb)"
    using reachable_1mb cap by (rule slot_in_map)
  have room1: "(0::int) * ATOM_SIZE + 64 \<le> mlen (map_mm ?z1)"
    using re1 cap1 by (rule slot_in_map)
  have cl1: "ljust (take 32 ?p1) 32 0 = ?p1" by (simp add: ljust_def bytes_def)
  have sl1: "strlen ?p1 = 32" by (simp add: strlen_def bytes_def)
  have sl2: "strlen (ljust (take 32 ?p2) 32 0) = 2" by (simp add: strlen_def ljust_def bytes_def)
  note r2 = read_atom_after_write [OF re1 z cap1 adm2, of 1 0]
  have tw: "takeWhile (\<lambda>b. b \<noteq> 0) (take 32 ?p2) = ?p2" by (simp add: bytes_def)
  have first: "mdata (map_mm ?z1) (24 + k) = ?p1 ! k" if "k < 32" for k
    using write_atom_admitted(7) [OF z cap room0 adm1, of k 1 0] that
    by (simp add: cl1 sl1)
  have kept: "mdata (map_mm ?z2) x = mdata (map_mm ?z1) x" if "27 \<le> x" "x < 56" for x
    using write_atom_admitted(6) [OF z cap1 room1 adm2, of x 1 0] that
    by (simp add: sl2)
  have b27: "mdata (map_mm ?z2) 27 = ?p1 ! 3" using kept [of 27] first [of 3] by simp
  have b55: "mdata (map_mm ?z2) 55 = ?p1 ! 31" using kept [of 55] first [of 31] by simp
  have v1: "?p1 ! 3 = 68" "?p1 ! 31 = 102" by (simp_all add: bytes_def)
  have v2: "ljust (take 32 ?p2) 32 0 ! 3 = 0" "ljust (take 32 ?p2) 32 0 ! 31 = 0"
    by (simp_all add: ljust_def bytes_def nth_append)
  have rd: "map_sum id (map_option payload) (read_atom ?z2 0) = Inr (Some ?p2)"
    using r2(2,5) tw by simp
  from adm1 adm2 r2(1) rd b27 b55 v1 v2 show ?thesis by blast
qed

section \<open>Capacity\<close>

text \<open>
  C7. The capacity of an engine is its size in bytes divided by 64, the size in bytes is
  the size in megabytes times 1024 times 1024, and the division leaves no remainder; for
  a positive size the mapped region has exactly that many bytes. No sequence of writes
  changes the capacity. For 100 megabytes the capacity is 1638400.
\<close>

theorem capacity_derivation:
  "init existing size_mb = Inr self \<Longrightarrow>
     size_bytes self = size_mb * 1024 * 1024
     \<and> atom_capacity self = size_bytes self div 64
     \<and> atom_capacity self * 64 = size_bytes self
     \<and> (0 < size_mb \<longrightarrow> mlen (map_mm self) = size_bytes self)
     \<and> atom_capacity (run self cs) = atom_capacity self
     \<and> (size_mb = 100 \<longrightarrow> atom_capacity self = 1638400 \<and> size_bytes self = 1638400 * 64)"
proof -
  assume h: "init existing size_mb = Inr self"
  note i = init_Inr [OF h]
  have sz: "size_bytes self = size_mb * 16384 * 64" by (simp add: i(1))
  have cap: "atom_capacity self = size_mb * 16384"
    unfolding i(2) ATOM_SIZE_def sz by (rule nonzero_mult_div_cancel_right) simp
  have c1: "size_bytes self = size_mb * 1024 * 1024" by (rule i(1))
  have c2: "atom_capacity self = size_bytes self div 64" using i(2) by (simp only: ATOM_SIZE_def)
  have c3: "atom_capacity self * 64 = size_bytes self" by (simp only: sz cap)
  have c4: "0 < size_mb \<longrightarrow> mlen (map_mm self) = size_bytes self" using i(3) by blast
  have c5: "atom_capacity (run self cs) = atom_capacity self" by (rule run_keeps(2))
  have c6: "size_mb = 100 \<longrightarrow> atom_capacity self = 1638400 \<and> size_bytes self = 1638400 * 64"
    by (simp add: cap sz)
  from c1 c2 c3 c4 c5 c6 show ?thesis by blast
qed

theorem capacity_derivation_witness:
  "init None 100 =
     Inr \<lparr> size_bytes = 104857600, atom_capacity = 1638400,
           map_mm = \<lparr> mlen = 104857600, mdata = (\<lambda>_. 0) \<rparr> \<rparr>
   \<and> atom_capacity
        (run \<lparr> size_bytes = 104857600, atom_capacity = 1638400,
                map_mm = \<lparr> mlen = 104857600, mdata = (\<lambda>_. 0) \<rparr> \<rparr>
           [(0, bytes ''ab'', 1, 0), (1638400, bytes ''cd'', 1, 1)]) = 1638400"
proof -
  have h: "init None 100 =
     Inr \<lparr> size_bytes = 104857600, atom_capacity = 1638400,
           map_mm = \<lparr> mlen = 104857600, mdata = (\<lambda>_. 0) \<rparr> \<rparr>"
    using init_fresh [of 100] by simp
  show ?thesis
    using h capacity_derivation [OF h, of "[(0, bytes ''ab'', 1, 0), (1638400, bytes ''cd'', 1, 1)]"]
    by simp
qed

section \<open>Frame\<close>

text \<open>
  C8. A write at a valid index with an admissible payload succeeds and changes only the
  64 bytes of its slot, addresses \<open>64 i\<close> to \<open>64 i + 63\<close> of the mapped region:
  every other byte, hence the 64 bytes of every other slot, and the length of the region
  are as before.
\<close>

theorem write_atom_frame_slot:
  assumes "reachable self" "0 \<le> i" "i < atom_capacity self"
    and "\<not> calculate_h_score p < H_THRESHOLD"
  shows "fst (write_atom self i p s t) = Inr True
     \<and> (\<forall>x. x < nat (i * 64) \<or> nat (i * 64) + 64 \<le> x \<longrightarrow>
            mdata (map_mm (snd (write_atom self i p s t))) x = mdata (map_mm self) x)
     \<and> (\<forall>j. 0 \<le> j \<and> j \<noteq> i \<longrightarrow>
            load (mdata (map_mm (snd (write_atom self i p s t)))) (nat (j * 64)) 64
            = load (mdata (map_mm self)) (nat (j * 64)) 64)
     \<and> mlen (map_mm (snd (write_atom self i p s t))) = mlen (map_mm self)"
proof (intro conjI allI impI)
  show "fst (write_atom self i p s t) = Inr True"
    using assms by (rule read_atom_after_write(1))
next
  fix x assume "x < nat (i * 64) \<or> nat (i * 64) + 64 \<le> x"
  then show "mdata (map_mm (snd (write_atom self i p s t))) x = mdata (map_mm self) x"
    using write_atom_frame [of x i self p s t] by (simp add: ATOM_SIZE_def)
next
  fix j assume j: "0 \<le> j \<and> j \<noteq> i"
  show "load (mdata (map_mm (snd (write_atom self i p s t)))) (nat (j * 64)) 64
        = load (mdata (map_mm self)) (nat (j * 64)) 64"
  proof (rule load_cong)
    fix x assume "nat (j * 64) \<le> x" "x < nat (j * 64) + 64"
    then have "x < nat (i * ATOM_SIZE) \<or> nat (i * ATOM_SIZE) + 64 \<le> x"
      using other_slot [of i j x] j assms(2) by (simp add: ATOM_SIZE_def)
    then show "mdata (map_mm (snd (write_atom self i p s t))) x = mdata (map_mm self) x"
      by (rule write_atom_frame)
  qed
next
  show "mlen (map_mm (snd (write_atom self i p s t))) = mlen (map_mm self)"
    by (rule write_atom_keeps(3))
qed

theorem write_atom_frame_slot_witness:
  "fst (write_atom zpa_1mb 5 (bytes ''ab'') 1 0) = Inr True
   \<and> mdata (map_mm (snd (write_atom zpa_1mb 5 (bytes ''ab'') 1 0))) 319 = mdata (map_mm zpa_1mb) 319
   \<and> mdata (map_mm (snd (write_atom zpa_1mb 5 (bytes ''ab'') 1 0))) 384 = mdata (map_mm zpa_1mb) 384
   \<and> load (mdata (map_mm (snd (write_atom zpa_1mb 5 (bytes ''ab'') 1 0)))) 256 64
      = load (mdata (map_mm zpa_1mb)) 256 64"
proof -
  have cap: "(5::int) < atom_capacity zpa_1mb" by (simp add: zpa_1mb_eq)
  note adm = admitted_ab
  have "(0::int) \<le> 5" by simp
  from write_atom_frame_slot [OF reachable_1mb this cap adm, of 1 0]
  have f: "fst (write_atom zpa_1mb 5 (bytes ''ab'') 1 0) = Inr True"
    and x: "\<And>x. x < nat (5 * 64) \<or> nat (5 * 64) + 64 \<le> x \<Longrightarrow>
            mdata (map_mm (snd (write_atom zpa_1mb 5 (bytes ''ab'') 1 0))) x = mdata (map_mm zpa_1mb) x"
    and j: "\<And>j. 0 \<le> j \<and> j \<noteq> 5 \<Longrightarrow>
            load (mdata (map_mm (snd (write_atom zpa_1mb 5 (bytes ''ab'') 1 0)))) (nat (j * 64)) 64
            = load (mdata (map_mm zpa_1mb)) (nat (j * 64)) 64"
    by blast+
  from f x [of 319] x [of 384] j [of 4] show ?thesis by simp
qed

section \<open>The payload is a C string\<close>

text \<open>
  C9. The payload of a record returned by \<open>read_atom\<close> is the 32 bytes of the payload
  field of the slot up to, and without, the first zero byte; it contains no zero byte and
  has at most 32 bytes. So, after a write at a valid index, an admissible payload shorter
  than 32 bytes without a zero byte reads back as it is, without the zero padding, and
  one with a zero byte among its first 32 reads back cut before that byte.
\<close>

theorem payload_nul_truncation:
  "(\<forall>v. read_atom self i = Inr (Some v) \<longrightarrow>
        payload v = takeWhile (\<lambda>b. b \<noteq> 0) (load (mdata (map_mm self)) (nat (i * 64) + 24) 32)
        \<and> 0 \<notin> set (payload v) \<and> length (payload v) \<le> 32)
   \<and> (reachable self \<and> 0 \<le> i \<and> i < atom_capacity self
        \<and> \<not> calculate_h_score p < H_THRESHOLD \<longrightarrow>
        (\<exists>v. read_atom (snd (write_atom self i p s t)) i = Inr (Some v)
           \<and> (length p < 32 \<and> 0 \<notin> set p \<longrightarrow> payload v = p \<and> payload v \<noteq> ljust p 32 0)
           \<and> (\<forall>p1 p2. p = p1 @ 0 # p2 \<and> 0 \<notin> set p1 \<and> length p1 < 32 \<longrightarrow> payload v = p1)))"
proof (rule conjI; intro allI impI)
  fix v assume rd: "read_atom self i = Inr (Some v)"
  let ?field = "load (mdata (map_mm self)) (nat (i * 64) + 24) 32"
  from rd have "v = read_fields (mdata (map_mm self)) (nat (i * 64))"
    by (auto simp: read_atom_def from_buffer_def ATOM_SIZE_def Let_def
        split: if_splits sum.splits)
  then have pv: "payload v = takeWhile (\<lambda>b. b \<noteq> 0) ?field"
    by (simp add: read_fields_def s_get_def)
  have "0 \<notin> set (takeWhile (\<lambda>b. b \<noteq> 0) ?field)"
    by (auto dest: set_takeWhileD)
  moreover have "length (takeWhile (\<lambda>b. b \<noteq> 0) ?field) \<le> length ?field"
    by (rule length_takeWhile_le)
  ultimately show "payload v = takeWhile (\<lambda>b. b \<noteq> 0) ?field
        \<and> 0 \<notin> set (payload v) \<and> length (payload v) \<le> 32"
    using pv by simp
next
  assume a: "reachable self \<and> 0 \<le> i \<and> i < atom_capacity self
        \<and> \<not> calculate_h_score p < H_THRESHOLD"
  define v where "v = read_fields (mdata (map_mm (snd (write_atom self i p s t)))) (nat (i * ATOM_SIZE))"
  from a have r: "read_atom (snd (write_atom self i p s t)) i = Inr (Some v)"
    and pv: "payload v = takeWhile (\<lambda>b. b \<noteq> 0) (take 32 p)"
    unfolding v_def by (simp_all add: read_atom_after_write)
  have short: "payload v = p \<and> payload v \<noteq> ljust p 32 0" if "length p < 32 \<and> 0 \<notin> set p"
  proof -
    have "takeWhile (\<lambda>b. b \<noteq> 0) p = p"
      using that by (intro takeWhile_eq_all_conv [THEN iffD2]) auto
    then have "payload v = p" using that pv by simp
    moreover have "length (ljust p 32 0) \<noteq> length p" using that by (simp add: ljust_def)
    ultimately show ?thesis by metis
  qed
  have inner: "payload v = p1" if "p = p1 @ 0 # p2 \<and> 0 \<notin> set p1 \<and> length p1 < 32" for p1 p2
  proof -
    from that have "take 32 p = p1 @ 0 # take (31 - length p1) p2"
      by (simp add: take_Cons')
    moreover have "takeWhile (\<lambda>b. b \<noteq> 0) (p1 @ 0 # take (31 - length p1) p2) = p1"
      using that by (subst takeWhile_append2) auto
    ultimately show ?thesis using pv by simp
  qed
  from r short inner
  show "\<exists>v. read_atom (snd (write_atom self i p s t)) i = Inr (Some v)
           \<and> (length p < 32 \<and> 0 \<notin> set p \<longrightarrow> payload v = p \<and> payload v \<noteq> ljust p 32 0)
           \<and> (\<forall>p1 p2. p = p1 @ 0 # p2 \<and> 0 \<notin> set p1 \<and> length p1 < 32 \<longrightarrow> payload v = p1)"
    by blast
qed

theorem payload_nul_truncation_witness:
  "map_sum id (map_option payload)
     (read_atom (snd (write_atom zpa_1mb 2 (bytes ''a'' @ 0 # bytes ''b'') 1 0)) 2)
   = Inr (Some (bytes ''a''))
   \<and> map_sum id (map_option payload)
     (read_atom (snd (write_atom zpa_1mb 2 (bytes ''xyz'') 1 0)) 2)
   = Inr (Some (bytes ''xyz''))"
proof -
  have cap: "(2::int) < atom_capacity zpa_1mb" by (simp add: zpa_1mb_eq)
  have adm1: "\<not> calculate_h_score (bytes ''a'' @ 0 # bytes ''b'') < H_THRESHOLD"
    by (rule admitted_distinct) (simp_all add: bytes_def)
  have adm2: "\<not> calculate_h_score (bytes ''xyz'') < H_THRESHOLD"
    by (rule admitted_distinct) (simp_all add: bytes_def)
  have nz: "0 \<notin> set (bytes ''a'')" "0 \<notin> set (bytes ''xyz'')" by (simp_all add: bytes_def)
  have ln: "length (bytes ''a'') < 32" "length (bytes ''xyz'') < 32" by (simp_all add: bytes_def)
  from payload_nul_truncation [of zpa_1mb 2 "bytes ''a'' @ 0 # bytes ''b''" 1 0]
    reachable_1mb cap adm1 nz(1) ln(1)
  have 1: "\<exists>v. read_atom (snd (write_atom zpa_1mb 2 (bytes ''a'' @ 0 # bytes ''b'') 1 0)) 2 = Inr (Some v)
     \<and> payload v = bytes ''a''"
    by auto
  from payload_nul_truncation [of zpa_1mb 2 "bytes ''xyz''" 1 0]
    reachable_1mb cap adm2 nz(2) ln(2)
  have 2: "\<exists>v. read_atom (snd (write_atom zpa_1mb 2 (bytes ''xyz'') 1 0)) 2 = Inr (Some v)
     \<and> payload v = bytes ''xyz''"
    by auto
  from 1 2 show ?thesis by auto
qed

section \<open>Short payloads\<close>

text \<open>
  C10. A payload of one or two bytes, whatever the bytes, scores at least
  \<open>min 0.99 (PHI / 2)\<close>, which is above the threshold \<open>1 / PHI\<close>; so a write of such
  a payload at a valid index is not rejected and returns true.
\<close>

theorem short_payload_admitted:
  assumes "length p = 1 \<or> length p = 2"
  shows "min (99 / 100) (PHI / 2) \<le> calculate_h_score p
     \<and> H_THRESHOLD < min (99 / 100) (PHI / 2)
     \<and> (reachable self \<and> 0 \<le> i \<and> i < atom_capacity self \<longrightarrow>
          fst (write_atom self i p s t) = Inr True)"
proof -
  have gap: "H_THRESHOLD < min (99 / 100) (PHI / 2)"
    by (simp add: H_THRESHOLD_def PHI_def)
  have low: "min (99 / 100) (PHI / 2) \<le> calculate_h_score p"
    using assms
  proof
    assume "length p = 1"
    then obtain a where "p = [a]" by (cases p) auto
    then show ?thesis by (simp add: calculate_h_score_def PHI_def)
  next
    assume "length p = 2"
    then obtain a b where "p = [a, b]"
      by (cases p; cases "tl p") auto
    then show ?thesis by (cases "a = b") (simp_all add: calculate_h_score_def PHI_def)
  qed
  from gap low have "\<not> calculate_h_score p < H_THRESHOLD" by linarith
  then have "fst (write_atom self i p s t) = Inr True"
    if "reachable self \<and> 0 \<le> i \<and> i < atom_capacity self"
    using that by (simp add: read_atom_after_write(1))
  with gap low show ?thesis by blast
qed

theorem short_payload_admitted_witness:
  "min (99 / 100) (PHI / 2) \<le> calculate_h_score [0, 0]
   \<and> H_THRESHOLD < min (99 / 100) (PHI / 2)
   \<and> fst (write_atom zpa_1mb 16383 [0, 0] 1 0) = Inr True"
proof -
  have cap: "(16383::int) < atom_capacity zpa_1mb" by (simp add: zpa_1mb_eq)
  have "length [0, 0 :: byte] = 1 \<or> length [0, 0 :: byte] = 2" by simp
  from short_payload_admitted [OF this, of zpa_1mb 16383 1 0] reachable_1mb cap
  show ?thesis by simp
qed

end
